theory Spec2Isabelle
  imports Main "HOL-Library.Multiset" "HOL-Library.Char_ord" "HOL-Library.List_Lexorder"
begin

section \<open>Grids\<close>

text \<open>
  A grid is a JavaScript array of nine arrays of nine numbers, \<open>0\<close> meaning empty.
  \<open>grid[row][col]\<close> is \<open>grid ! row ! col\<close>, and the assignment
  \<open>grid[row][col] = v\<close> is \<open>setCell\<close>. The source reads and writes cells
  with \<open>row\<close> and \<open>col\<close> taken from loops over \<open>0..8\<close> or from a cell
  index \<open>0..80\<close> (\<open>Math.floor(index / 9)\<close>, \<open>index % 9\<close>), so on a 9x9 grid
  every access is in range; the theorems below are stated for such grids
  (\<open>wf_grid\<close>) and such indices.
\<close>

type_synonym grid = "int list list"

definition setCell :: "grid \<Rightarrow> nat \<Rightarrow> nat \<Rightarrow> int \<Rightarrow> grid" where
  "setCell grid row col v = grid[row := (grid ! row)[col := v]]"

definition wf_grid :: "grid \<Rightarrow> bool" where
  "wf_grid grid \<longleftrightarrow> length grid = 9 \<and> list_all (\<lambda>r. length r = 9) grid"

definition emptyGrid :: grid where
  \<comment> \<open>\<open>Array(9).fill(null).map(() => Array(9).fill(0))\<close>\<close>
  "emptyGrid = replicate 9 (replicate 9 0)"

section \<open>Shuffle\<close>

text \<open>
  \<open>Math.random()\<close> is the only source of nondeterminism. The model takes the
  sequence of draws as a parameter \<open>rnd\<close> and threads the number \<open>p\<close> of draws
  made so far: the \<open>p\<close>-th evaluation of \<open>Math.floor(Math.random() * n)\<close> is
  \<open>rnd p mod n\<close>, which ranges over exactly \<open>0..n-1\<close> as \<open>rnd\<close> varies.
\<close>

type_synonym random = "nat \<Rightarrow> nat"

fun shuffleLoop :: "random \<Rightarrow> nat \<Rightarrow> 'a list \<Rightarrow> nat \<Rightarrow> 'a list \<times> nat" where
  "shuffleLoop rnd p arr 0 = (arr, p)"
| "shuffleLoop rnd p arr (Suc k) =
     (let i = Suc k;
          j = rnd p mod (i + 1)
      in shuffleLoop rnd (Suc p) (arr[i := arr ! j, j := arr ! i]) k)"

definition shuffleArray :: "random \<Rightarrow> nat \<Rightarrow> 'a list \<Rightarrow> 'a list \<times> nat" where
  "shuffleArray rnd p array = shuffleLoop rnd p array (length array - 1)"

section \<open>Constraint checks\<close>

definition isValidPlacement :: "grid \<Rightarrow> nat \<Rightarrow> nat \<Rightarrow> int \<Rightarrow> bool" where
  "isValidPlacement grid row col num =
     (if list_ex (\<lambda>c. grid ! row ! c = num) [0..<9] then False
      else if list_ex (\<lambda>r. grid ! r ! col = num) [0..<9] then False
      else
        let boxRow = (row div 3) * 3;
            boxCol = (col div 3) * 3
        in if list_ex (\<lambda>r. list_ex (\<lambda>c. grid ! r ! c = num) [boxCol..<boxCol + 3])
                [boxRow..<boxRow + 3]
           then False else True)"

definition findEmptyCell :: "grid \<Rightarrow> (nat \<times> nat) option" where
  "findEmptyCell grid =
     List.find (\<lambda>(row, col). grid ! row ! col = 0)
       (concat (map (\<lambda>row. map (\<lambda>col. (row, col)) [0..<9]) [0..<9]))"

section \<open>Solution generator\<close>

text \<open>
  \<open>fillGrid\<close> mutates the grid in place and returns a boolean; the model returns the
  boolean, the grid as the call leaves it, and the number of draws made. The first
  argument bounds the depth of the recursion (the call stack): with no depth left the
  result is \<open>None\<close>. \<open>fillGrid_for\<close> is the \<open>for (const num of numbers)\<close> loop.
\<close>

fun fillGrid :: "nat \<Rightarrow> random \<Rightarrow> nat \<Rightarrow> grid \<Rightarrow> (bool \<times> grid \<times> nat) option"
and fillGrid_for ::
  "nat \<Rightarrow> random \<Rightarrow> nat \<Rightarrow> grid \<Rightarrow> nat \<Rightarrow> nat \<Rightarrow> int list \<Rightarrow> (bool \<times> grid \<times> nat) option"
where
  "fillGrid 0 rnd p grid = None"
| "fillGrid (Suc depth) rnd p grid =
     (case findEmptyCell grid of
        None \<Rightarrow> Some (True, grid, p)
      | Some (row, col) \<Rightarrow>
          (case shuffleArray rnd p [1, 2, 3, 4, 5, 6, 7, 8, 9] of
             (numbers, p') \<Rightarrow> fillGrid_for depth rnd p' grid row col numbers))"
| "fillGrid_for depth rnd p grid row col [] = Some (False, grid, p)"
| "fillGrid_for depth rnd p grid row col (num # rest) =
     (if isValidPlacement grid row col num then
        (case fillGrid depth rnd p (setCell grid row col num) of
           None \<Rightarrow> None
         | Some (True, grid', p') \<Rightarrow> Some (True, grid', p')
         | Some (False, grid', p') \<Rightarrow>
             fillGrid_for depth rnd p' (setCell grid' row col 0) row col rest)
      else fillGrid_for depth rnd p grid row col rest)"

definition generateSolution :: "nat \<Rightarrow> random \<Rightarrow> nat \<Rightarrow> (grid \<times> nat) option" where
  "generateSolution depth rnd p =
     (case fillGrid depth rnd p emptyGrid of
        None \<Rightarrow> None
      | Some (ok, grid, p') \<Rightarrow> Some (grid, p'))"

section \<open>Puzzle carver\<close>

record level =
  cellsToRemove :: nat
  name :: string

definition DIFFICULTY_LEVELS :: "string \<Rightarrow> level option" where
  "DIFFICULTY_LEVELS =
     [''low'' \<mapsto> \<lparr>cellsToRemove = 30, name = ''Low''\<rparr>,
      ''medium'' \<mapsto> \<lparr>cellsToRemove = 45, name = ''Medium''\<rparr>,
      ''high'' \<mapsto> \<lparr>cellsToRemove = 55, name = ''High''\<rparr>]"

text \<open>
  The loop \<open>for (const pos of positions)\<close> with its counter \<open>removed\<close> and its
  \<open>break\<close>.
\<close>

fun removeCells :: "grid \<Rightarrow> nat \<Rightarrow> nat \<Rightarrow> nat list \<Rightarrow> grid" where
  "removeCells puzzle toRemove removed [] = puzzle"
| "removeCells puzzle toRemove removed (pos # rest) =
     (if removed \<ge> toRemove then puzzle
      else
        let row = pos div 9;
            col = pos mod 9
        in removeCells (setCell puzzle row col 0) toRemove (removed + 1) rest)"

text \<open>
  \<open>generatePuzzle\<close> works on a copy of \<open>solution\<close>
  (\<open>solution.map(row => [...row])\<close> builds new row arrays), so the model returns the
  puzzle as a new value. A key that is not in \<open>DIFFICULTY_LEVELS\<close> makes the source
  fail on \<open>.cellsToRemove\<close>; the model returns \<open>None\<close> there.
\<close>

definition generatePuzzle ::
  "random \<Rightarrow> nat \<Rightarrow> grid \<Rightarrow> string \<Rightarrow> (grid \<times> nat) option" where
  "generatePuzzle rnd p solution difficulty =
     (let puzzle = map (\<lambda>row. row) solution
      in case DIFFICULTY_LEVELS difficulty of
           None \<Rightarrow> None
         | Some lvl \<Rightarrow>
             (case shuffleArray rnd p [0..<81] of
                (positions, p') \<Rightarrow>
                  Some (removeCells puzzle (cellsToRemove lvl) 0 positions, p')))"

section \<open>Session state\<close>

text \<open>
  A candidate set is a JavaScript \<open>Set\<close> of numbers, which keeps its elements in
  insertion order: a list, with the operations the source uses.
\<close>

type_synonym numSet = "int list"

definition Set_add :: "numSet \<Rightarrow> int \<Rightarrow> numSet" where
  "Set_add s x = (if x \<in> set s then s else s @ [x])"

definition Set_delete :: "numSet \<Rightarrow> int \<Rightarrow> numSet" where
  "Set_delete s x = removeAll x s"

definition Set_new :: "int list \<Rightarrow> numSet" where
  \<comment> \<open>\<open>new Set(arr)\<close>\<close>
  "Set_new arr = fold (\<lambda>x s. Set_add s x) arr []"

definition Array_from :: "numSet \<Rightarrow> int list" where
  "Array_from s = s"

text \<open>
  The record written to \<open>localStorage\<close>. \<open>JSON.stringify\<close> followed by
  \<open>JSON.parse\<close> returns arrays of integers, booleans, strings and \<open>null\<close> as
  they were, so the stored string is modelled by the record itself. The three fields
  read with \<open>|| default\<close> are optional in a parsed record.
\<close>

record savedState =
  sv_puzzle :: grid
  sv_solution :: grid
  sv_userValues :: grid
  sv_possibleNumbers :: "int list list"
  sv_selectedCell :: "nat option"
  sv_difficulty :: string
  sv_elapsedTime :: "int option"
  sv_isCompleted :: "bool option"
  sv_showErrors :: "bool option"

datatype statusMessage =
    NoMessage          \<comment> \<open>the empty string\<close>
  | CompletedMessage   \<comment> \<open>"Completed!"\<close>
  | IncorrectMessage   \<comment> \<open>"Some numbers are incorrect"\<close>
  | AllCorrectMessage  \<comment> \<open>"All entered numbers are correct"\<close>

text \<open>
  The fields of \<open>gameState\<close>, followed by the other mutable globals of the script:
  whether a timer interval is installed (\<open>timerInterval\<close>), \<open>lastKeyPress\<close>, the
  text of the status element and the entry of \<open>localStorage\<close> under
  \<open>STORAGE_KEY\<close>. Rendering (\<open>renderBoard\<close>, the context menu, the timer display)
  only reads the state and is left out.
\<close>

record state =
  puzzle :: grid
  solution :: grid
  userValues :: grid
  possibleNumbers :: "numSet list"
  selectedCell :: "nat option"
  difficulty :: string
  startTime :: int
  elapsedTime :: int
  isCompleted :: bool
  showErrors :: bool
  timerInterval :: bool
  lastKeyPress :: "string option \<times> int"
  statusText :: statusMessage
  storage :: "savedState option"

definition stateToSave :: "state \<Rightarrow> savedState" where
  "stateToSave s =
     \<lparr>sv_puzzle = puzzle s,
      sv_solution = solution s,
      sv_userValues = userValues s,
      sv_possibleNumbers = map Array_from (possibleNumbers s),
      sv_selectedCell = selectedCell s,
      sv_difficulty = difficulty s,
      sv_elapsedTime = Some (elapsedTime s),
      sv_isCompleted = Some (isCompleted s),
      sv_showErrors = Some (showErrors s)\<rparr>"

definition saveGameState :: "state \<Rightarrow> state" where
  "saveGameState s = s\<lparr>storage := Some (stateToSave s)\<rparr>"

definition stopTimer :: "state \<Rightarrow> state" where
  "stopTimer s = (if timerInterval s then s\<lparr>timerInterval := False\<rparr> else s)"

definition startTimer :: "int \<Rightarrow> state \<Rightarrow> state" where
  "startTimer now s =
     (let s = stopTimer s
      in s\<lparr>startTime := now - elapsedTime s, timerInterval := True\<rparr>)"

definition timerTick :: "int \<Rightarrow> state \<Rightarrow> state" where
  \<comment> \<open>the callback given to \<open>setInterval\<close>\<close>
  "timerTick now s =
     (if timerInterval s \<and> \<not> isCompleted s then s\<lparr>elapsedTime := now - startTime s\<rparr>
      else s)"

definition orElse :: "'a::zero option \<Rightarrow> 'a \<Rightarrow> 'a" where
  \<comment> \<open>\<open>x || d\<close> for a number: missing and \<open>0\<close> give \<open>d\<close>\<close>
  "orElse x d = (case x of None \<Rightarrow> d | Some v \<Rightarrow> if v = 0 then d else v)"

definition orElseBool :: "bool option \<Rightarrow> bool \<Rightarrow> bool" where
  "orElseBool x d = (case x of None \<Rightarrow> d | Some v \<Rightarrow> if v then v else d)"

definition loadGameState :: "int \<Rightarrow> state \<Rightarrow> bool \<times> state" where
  "loadGameState now s =
     (case storage s of
        None \<Rightarrow> (False, s)
      | Some parsed \<Rightarrow>
          let s = s\<lparr>puzzle := sv_puzzle parsed,
                    solution := sv_solution parsed,
                    userValues := sv_userValues parsed,
                    possibleNumbers := map Set_new (sv_possibleNumbers parsed),
                    selectedCell := sv_selectedCell parsed,
                    difficulty := sv_difficulty parsed,
                    elapsedTime := orElse (sv_elapsedTime parsed) 0,
                    isCompleted := orElseBool (sv_isCompleted parsed) False,
                    showErrors := orElseBool (sv_showErrors parsed) False\<rparr>;
              s = (if isCompleted s then s\<lparr>statusText := CompletedMessage\<rparr> else s);
              s = (if \<not> isCompleted s then startTimer now s else s)
          in (True, s))"

subsection \<open>Board checks on the user's values\<close>

definition countEmptyCellsInRow :: "state \<Rightarrow> nat \<Rightarrow> nat" where
  "countEmptyCellsInRow s row =
     length (filter (\<lambda>col. userValues s ! row ! col = 0) [0..<9])"

definition countEmptyCellsInColumn :: "state \<Rightarrow> nat \<Rightarrow> nat" where
  "countEmptyCellsInColumn s col =
     length (filter (\<lambda>row. userValues s ! row ! col = 0) [0..<9])"

definition countEmptyCellsInSquare :: "state \<Rightarrow> nat \<Rightarrow> nat \<Rightarrow> nat" where
  "countEmptyCellsInSquare s row col =
     (let boxRow = (row div 3) * 3;
          boxCol = (col div 3) * 3
      in length (filter (\<lambda>(r, c). userValues s ! r ! c = 0)
           (concat (map (\<lambda>r. map (\<lambda>c. (r, c)) [boxCol..<boxCol + 3])
              [boxRow..<boxRow + 3]))))"

text \<open>
  The three loops that delete from \<open>possible\<close> the numbers of the row, the column and
  the box; \<open>findFinalNumber\<close> and \<open>autoFillPossibleNumbers\<close> both contain them.
\<close>

definition possibleFor :: "grid \<Rightarrow> nat \<Rightarrow> nat \<Rightarrow> numSet" where
  "possibleFor vals row col =
     (let possible = Set_new [1, 2, 3, 4, 5, 6, 7, 8, 9];
          possible = fold (\<lambda>c s. Set_delete s (vals ! row ! c)) [0..<9] possible;
          possible = fold (\<lambda>r s. Set_delete s (vals ! r ! col)) [0..<9] possible;
          boxRow = (row div 3) * 3;
          boxCol = (col div 3) * 3
      in fold (\<lambda>r s. fold (\<lambda>c s. Set_delete s (vals ! r ! c)) [boxCol..<boxCol + 3] s)
           [boxRow..<boxRow + 3] possible)"

definition findFinalNumber :: "state \<Rightarrow> nat \<Rightarrow> nat \<Rightarrow> int option" where
  "findFinalNumber s row col =
     (let possible = possibleFor (userValues s) row col
      in if length possible = 1 then Some (Array_from possible ! 0) else None)"

definition checkBoardState :: "state \<Rightarrow> bool \<times> bool \<times> bool" where
  \<comment> \<open>\<open>(allFilled, allCorrect, hasErrors)\<close>\<close>
  "checkBoardState s =
     fold (\<lambda>(row, col) (allFilled, allCorrect, hasErrors).
             let userValue = userValues s ! row ! col;
                 allFilled = (if userValue = 0 then False else allFilled)
             in if userValue \<noteq> solution s ! row ! col
                then (allFilled, False, (if userValue \<noteq> 0 then True else hasErrors))
                else (allFilled, allCorrect, hasErrors))
       (concat (map (\<lambda>row. map (\<lambda>col. (row, col)) [0..<9]) [0..<9]))
       (True, True, False)"

subsection \<open>Transitions\<close>

definition checkCompletion :: "state \<Rightarrow> state" where
  "checkCompletion s =
     (case checkBoardState s of
        (allFilled, allCorrect, hasErrors) \<Rightarrow>
          if allFilled then
            let s = s\<lparr>showErrors := True\<rparr>;
                s = (if allCorrect
                     then (stopTimer (s\<lparr>isCompleted := True\<rparr>))\<lparr>statusText := CompletedMessage\<rparr>
                     else s\<lparr>statusText := IncorrectMessage\<rparr>)
            in saveGameState s
          else s)"

definition setFinalValue :: "nat \<Rightarrow> int \<Rightarrow> state \<Rightarrow> state" where
  "setFinalValue index num s =
     (let row = index div 9;
          col = index mod 9;
          s = s\<lparr>userValues := setCell (userValues s) row col num\<rparr>;
          s = s\<lparr>possibleNumbers := (possibleNumbers s)[index := []]\<rparr>
      in checkCompletion s)"

definition togglePossibleNumber :: "nat \<Rightarrow> int \<Rightarrow> state \<Rightarrow> state" where
  "togglePossibleNumber index num s =
     (let row = index div 9;
          col = index mod 9;
          s = (if userValues s ! row ! col \<noteq> 0
               then s\<lparr>userValues := setCell (userValues s) row col 0\<rparr> else s);
          possible = possibleNumbers s ! index
      in if num \<in> set possible
         then s\<lparr>possibleNumbers := (possibleNumbers s)[index := Set_delete possible num]\<rparr>
         else s\<lparr>possibleNumbers := (possibleNumbers s)[index := Set_add possible num]\<rparr>)"

definition clearCell :: "nat \<Rightarrow> state \<Rightarrow> state" where
  "clearCell index s =
     (let row = index div 9;
          col = index mod 9
      in if puzzle s ! row ! col = 0 then
           let s = s\<lparr>userValues := setCell (userValues s) row col 0\<rparr>;
               s = s\<lparr>possibleNumbers := (possibleNumbers s)[index := []]\<rparr>
           in saveGameState s
         else s)"

definition autoFillPossibleNumbers :: "nat \<Rightarrow> state \<Rightarrow> state" where
  "autoFillPossibleNumbers index s =
     (let row = index div 9;
          col = index mod 9
      in if puzzle s ! row ! col \<noteq> 0 \<or> userValues s ! row ! col \<noteq> 0 then s
         else
           let possible = possibleFor (userValues s) row col;
               s = s\<lparr>possibleNumbers := (possibleNumbers s)[index := possible]\<rparr>
           in saveGameState s)"

definition handleCellDoubleClick :: "nat \<Rightarrow> state \<Rightarrow> state" where
  "handleCellDoubleClick index s =
     (let row = index div 9;
          col = index mod 9
      in if puzzle s ! row ! col \<noteq> 0 \<or> userValues s ! row ! col \<noteq> 0 then s
         else
           let isLastInRow = (countEmptyCellsInRow s row = 1);
               isLastInCol = (countEmptyCellsInColumn s col = 1);
               isLastInSquare = (countEmptyCellsInSquare s row col = 1)
           in if isLastInRow \<or> isLastInCol \<or> isLastInSquare then
                (case findFinalNumber s row col of
                   Some finalNumber \<Rightarrow> saveGameState (setFinalValue index finalNumber s)
                 | None \<Rightarrow> autoFillPossibleNumbers index s)
              else autoFillPossibleNumbers index s)"

definition validateBoard :: "state \<Rightarrow> state" where
  "validateBoard s =
     (let s = s\<lparr>showErrors := True\<rparr>
      in case checkBoardState s of
           (allFilled, allCorrect, hasErrors) \<Rightarrow>
             saveGameState
               (s\<lparr>statusText := (if hasErrors then IncorrectMessage else AllCorrectMessage)\<rparr>))"

definition handleCellClick :: "nat \<Rightarrow> state \<Rightarrow> state" where
  "handleCellClick index s = saveGameState (s\<lparr>selectedCell := Some index\<rparr>)"

definition handleCellContextMenu :: "nat \<Rightarrow> state \<Rightarrow> state" where
  "handleCellContextMenu index s = s\<lparr>selectedCell := Some index\<rparr>"

definition clearAllNotes :: "state \<Rightarrow> state" where
  "clearAllNotes s = saveGameState (s\<lparr>possibleNumbers := replicate 81 []\<rparr>)"

definition resetGame :: "int \<Rightarrow> state \<Rightarrow> state" where
  "resetGame now s =
     (let s = s\<lparr>userValues := map (\<lambda>row. row) (puzzle s),
                possibleNumbers := replicate 81 [],
                selectedCell := None,
                startTime := now,
                elapsedTime := 0,
                isCompleted := False,
                showErrors := False,
                statusText := NoMessage\<rparr>
      in saveGameState (startTimer now s))"

subsection \<open>Keyboard\<close>

text \<open>
  \<open>e.key\<close> is a string; \<open>key >= '1' && key <= '9'\<close> compares strings
  lexicographically, which is the order on \<open>string\<close>. \<open>parseInt\<close> reads the longest
  prefix of decimal digits; it is only called on a key that starts with a digit.
\<close>

record keyEvent =
  key :: string
  shiftKey :: bool

definition isDigit :: "char \<Rightarrow> bool" where
  "isDigit c \<longleftrightarrow> CHR ''0'' \<le> c \<and> c \<le> CHR ''9''"

definition parseInt :: "string \<Rightarrow> int" where
  "parseInt str =
     foldl (\<lambda>acc c. 10 * acc + (of_char c - 48)) 0 (takeWhile isDigit str)"

definition handleKeyDown :: "keyEvent \<Rightarrow> int \<Rightarrow> state \<Rightarrow> state" where
  "handleKeyDown e now s =
     (case selectedCell s of
        None \<Rightarrow> s
      | Some index \<Rightarrow>
          if isCompleted s then s
          else
            let row = index div 9;
                col = index mod 9;
                isInitialCell = (puzzle s ! row ! col \<noteq> 0);
                newSelectedCell =
                  (if key e = ''ArrowUp'' \<and> row > 0 then Some (index - 9)
                   else if key e = ''ArrowDown'' \<and> row < 8 then Some (index + 9)
                   else if key e = ''ArrowLeft'' \<and> col > 0 then Some (index - 1)
                   else if key e = ''ArrowRight'' \<and> col < 8 then Some (index + 1)
                   else None)
            in case newSelectedCell of
                 Some cell \<Rightarrow> saveGameState (s\<lparr>selectedCell := Some cell\<rparr>)
               | None \<Rightarrow>
                   if isInitialCell then s
                   else if key e \<ge> ''1'' \<and> key e \<le> ''9'' then
                     let num = parseInt (key e);
                         s = (if shiftKey e \<or>
                                 (fst (lastKeyPress s) = Some (key e) \<and>
                                  now - snd (lastKeyPress s) < 300)
                              then setFinalValue index num s
                              else togglePossibleNumber index num s)
                     in saveGameState (s\<lparr>lastKeyPress := (Some (key e), now)\<rparr>)
                   else if key e = ''Delete'' \<or> key e = ''Backspace'' then
                     saveGameState (clearCell index s)
                   else saveGameState s)"

subsection \<open>User actions\<close>

text \<open>
  The event handlers the page installs, as one step function. The two context-menu
  entries act on the selected cell and do nothing when there is none.
\<close>

datatype action =
    KeyDown keyEvent int
  | CellClick nat
  | CellDoubleClick nat
  | CellContextMenu nat
  | MenuAutoFill
  | MenuClearCell
  | ClearNotes
  | ResetGame int
  | Validate
  | TimerTick int

fun step :: "action \<Rightarrow> state \<Rightarrow> state" where
  "step (KeyDown e now) s = handleKeyDown e now s"
| "step (CellClick index) s = handleCellClick index s"
| "step (CellDoubleClick index) s = handleCellDoubleClick index s"
| "step (CellContextMenu index) s = handleCellContextMenu index s"
| "step MenuAutoFill s =
     (case selectedCell s of None \<Rightarrow> s | Some index \<Rightarrow> autoFillPossibleNumbers index s)"
| "step MenuClearCell s =
     (case selectedCell s of None \<Rightarrow> s | Some index \<Rightarrow> clearCell index s)"
| "step ClearNotes s = clearAllNotes s"
| "step (ResetGame now) s = resetGame now s"
| "step Validate s = validateBoard s"
| "step (TimerTick now) s = timerTick now s"

section \<open>Notions used in the statements\<close>

text \<open>
  The cells of the row, of the column and of the 3x3 box of a cell; the box has its
  origin at \<open>(row - row mod 3, col - col mod 3)\<close>.
\<close>

definition boxOrigin :: "nat \<Rightarrow> nat" where
  "boxOrigin i = i - i mod 3"

definition rowOf :: "nat \<Rightarrow> (nat \<times> nat) list" where
  "rowOf row = map (\<lambda>c. (row, c)) [0..<9]"

definition columnOf :: "nat \<Rightarrow> (nat \<times> nat) list" where
  "columnOf col = map (\<lambda>r. (r, col)) [0..<9]"

definition boxAt :: "nat \<Rightarrow> nat \<Rightarrow> (nat \<times> nat) list" where
  "boxAt r0 c0 = concat (map (\<lambda>r. map (\<lambda>c. (r, c)) [c0..<c0 + 3]) [r0..<r0 + 3])"

definition boxOf :: "nat \<Rightarrow> nat \<Rightarrow> (nat \<times> nat) list" where
  "boxOf row col = boxAt (boxOrigin row) (boxOrigin col)"

definition unitsOf :: "nat \<Rightarrow> nat \<Rightarrow> (nat \<times> nat) list" where
  "unitsOf row col = rowOf row @ columnOf col @ boxOf row col"

definition elsewhereOf :: "nat \<Rightarrow> nat \<Rightarrow> (nat \<times> nat) list" where
  \<comment> \<open>the cells of the three units other than the cell itself\<close>
  "elsewhereOf row col = filter (\<lambda>cell. cell \<noteq> (row, col)) (unitsOf row col)"

definition valuesAt :: "grid \<Rightarrow> (nat \<times> nat) list \<Rightarrow> int list" where
  "valuesAt grid cells = map (\<lambda>(r, c). grid ! r ! c) cells"

definition allCells :: "(nat \<times> nat) list" where
  "allCells = concat (map rowOf [0..<9])"

definition inRange :: "grid \<Rightarrow> bool" where
  \<comment> \<open>every cell holds a value in \<open>[0, 9]\<close>\<close>
  "inRange grid \<longleftrightarrow> (\<forall>v \<in> set (valuesAt grid allCells). 0 \<le> v \<and> v \<le> 9)"

definition filled :: "grid \<Rightarrow> bool" where
  "filled grid \<longleftrightarrow> 0 \<notin> set (valuesAt grid allCells)"

definition countZeros :: "grid \<Rightarrow> nat" where
  "countZeros grid = length (filter (\<lambda>v. v = 0) (valuesAt grid allCells))"

text \<open>A unit holds each of the digits 1..9 exactly once.\<close>

definition eachDigitOnce :: "int list \<Rightarrow> bool" where
  "eachDigitOnce vs \<longleftrightarrow> (\<forall>d \<in> {1..9}. count_list vs d = 1)"

definition solved :: "grid \<Rightarrow> bool" where
  "solved grid \<longleftrightarrow>
     (\<forall>row < 9. eachDigitOnce (valuesAt grid (rowOf row))) \<and>
     (\<forall>col < 9. eachDigitOnce (valuesAt grid (columnOf col))) \<and>
     (\<forall>br < 3. \<forall>bc < 3. eachDigitOnce (valuesAt grid (boxAt (3 * br) (3 * bc))))"

text \<open>
  The invariant of the search: no digit occurs twice in a unit, where two cells share a
  unit when they are in the same row, the same column or the same box.
\<close>

definition sameUnit :: "nat \<times> nat \<Rightarrow> nat \<times> nat \<Rightarrow> bool" where
  "sameUnit a b \<longleftrightarrow>
     fst a = fst b \<or> snd a = snd b \<or>
     (fst a div 3 = fst b div 3 \<and> snd a div 3 = snd b div 3)"

definition consistent :: "grid \<Rightarrow> bool" where
  "consistent grid \<longleftrightarrow>
     (\<forall>r < 9. \<forall>c < 9. grid ! r ! c \<noteq> 0 \<longrightarrow>
        1 \<le> grid ! r ! c \<and> grid ! r ! c \<le> 9 \<and>
        (\<forall>r' < 9. \<forall>c' < 9. (r', c') \<noteq> (r, c) \<longrightarrow> sameUnit (r, c) (r', c') \<longrightarrow>
           grid ! r' ! c' \<noteq> grid ! r ! c))"

definition cellConsistent :: "grid \<Rightarrow> nat \<times> nat \<Rightarrow> bool" where
  \<comment> \<open>the condition of \<open>consistent\<close> at one cell, in executable form\<close>
  "cellConsistent grid a \<longleftrightarrow>
     (let v = grid ! fst a ! snd a
      in v = 0 \<or> (1 \<le> v \<and> v \<le> 9 \<and> v \<notin> set (valuesAt grid (elsewhereOf (fst a) (snd a)))))"

text \<open>
  What a call of \<open>fillGrid\<close> leaves behind: on success a consistent grid without
  empty cells; on failure the grid as it was at the call, every placement undone.
\<close>

definition fillPost :: "grid \<Rightarrow> bool \<times> grid \<times> nat \<Rightarrow> bool" where
  "fillPost grid res \<longleftrightarrow>
     (case res of (ok, grid', p') \<Rightarrow>
        wf_grid grid' \<and> (if ok then consistent grid' \<and> filled grid' else grid' = grid))"

definition agreesWith :: "grid \<Rightarrow> grid \<Rightarrow> bool" where
  \<comment> \<open>every non-empty cell of the first grid holds the value of the second\<close>
  "agreesWith grid sol \<longleftrightarrow>
     (\<forall>r < 9. \<forall>c < 9. grid ! r ! c \<noteq> 0 \<longrightarrow> grid ! r ! c = sol ! r ! c)"

section \<open>Example data\<close>

text \<open>A solved grid, and a sequence of draws that makes every shuffle put a chosen digit first.\<close>

definition exampleSolution :: grid where
  "exampleSolution =
     [[1, 2, 3, 4, 5, 6, 7, 8, 9],
      [4, 5, 6, 7, 8, 9, 1, 2, 3],
      [7, 8, 9, 1, 2, 3, 4, 5, 6],
      [2, 3, 4, 5, 6, 7, 8, 9, 1],
      [5, 6, 7, 8, 9, 1, 2, 3, 4],
      [8, 9, 1, 2, 3, 4, 5, 6, 7],
      [3, 4, 5, 6, 7, 8, 9, 1, 2],
      [6, 7, 8, 9, 1, 2, 3, 4, 5],
      [9, 1, 2, 3, 4, 5, 6, 7, 8]]"

definition gridWithFive :: grid where
  "gridWithFive = setCell emptyGrid 0 0 5"

fun drawsFor :: "int list \<Rightarrow> random" where
  "drawsFor (d # ds) (Suc (Suc (Suc (Suc (Suc (Suc (Suc (Suc n)))))))) = drawsFor ds n"
| "drawsFor (d # ds) n = [8, 7, 6, 5, 4, 3, 2, 1][9 - nat d := 0] ! n"
| "drawsFor [] n = 0"

definition exampleDraws :: random where
  "exampleDraws = drawsFor (concat exampleSolution)"

lemma wf_grid_row: "wf_grid g \<Longrightarrow> r < 9 \<Longrightarrow> length (g ! r) = 9"
  by (simp add: wf_grid_def list_all_length)

lemma wf_grid_length: "wf_grid g \<Longrightarrow> length g = 9"
  by (simp add: wf_grid_def)

lemma wf_setCell: "wf_grid g \<Longrightarrow> wf_grid (setCell g r c v)"
  by (cases "r < 9") (auto simp: wf_grid_def setCell_def list_all_length nth_list_update)

lemma setCell_nth:
  "wf_grid g \<Longrightarrow> r < 9 \<Longrightarrow> c < 9 \<Longrightarrow>
   setCell g r c v ! r' ! c' = (if r' = r \<and> c' = c then v else g ! r' ! c')"
  by (auto simp: wf_grid_def setCell_def list_all_length nth_list_update)

lemma box_ineq: "i div 3 * 3 \<le> r \<and> r < i div 3 * 3 + 3 \<longleftrightarrow> r div 3 = i div (3::nat)"
  by auto

lemma boxOrigin_eq: "boxOrigin i = i div 3 * 3"
  unfolding boxOrigin_def by (simp add: minus_mod_eq_div_mult)

lemma set_rowOf: "set (rowOf row) = {(r, c). r = row \<and> c < 9}"
  by (auto simp: rowOf_def)

lemma set_columnOf: "set (columnOf col) = {(r, c). c = col \<and> r < 9}"
  by (auto simp: columnOf_def)

lemma set_boxAt:
  "set (boxAt r0 c0) = {(r, c). (r0 \<le> r \<and> r < r0 + 3) \<and> (c0 \<le> c \<and> c < c0 + 3)}"
  by (auto simp: boxAt_def)

lemma set_boxOf: "set (boxOf row col) = {(r, c). r div 3 = row div 3 \<and> c div 3 = col div 3}"
  unfolding boxOf_def set_boxAt boxOrigin_eq box_ineq ..

lemma set_unitsOf:
  "set (unitsOf row col) =
     {(r, c). (r = row \<and> c < 9) \<or> (c = col \<and> r < 9) \<or> (r div 3 = row div 3 \<and> c div 3 = col div 3)}"
  by (auto simp: unitsOf_def set_rowOf set_columnOf set_boxOf)

lemma isValidPlacement_iff:
  "isValidPlacement grid row col num \<longleftrightarrow>
     (\<forall>c < 9. grid ! row ! c \<noteq> num) \<and> (\<forall>r < 9. grid ! r ! col \<noteq> num) \<and>
     (\<forall>r c. r div 3 = row div 3 \<and> c div 3 = col div 3 \<longrightarrow> grid ! r ! c \<noteq> num)"
proof -
  have box: "list_ex (\<lambda>r. list_ex (\<lambda>c. grid ! r ! c = num) [b..<b + 3]) [a..<a + 3] \<longleftrightarrow>
        (\<exists>r c. (a \<le> r \<and> r < a + 3) \<and> (b \<le> c \<and> c < b + 3) \<and> grid ! r ! c = num)" for a b
    unfolding list_ex_iff set_upt Bex_def atLeastLessThan_iff by blast
  have rows: "list_ex (\<lambda>c. grid ! row ! c = num) [0..<9] \<longleftrightarrow> (\<exists>c < 9. grid ! row ! c = num)"
    by (auto simp: list_ex_iff)
  have cols: "list_ex (\<lambda>r. grid ! r ! col = num) [0..<9] \<longleftrightarrow> (\<exists>r < 9. grid ! r ! col = num)"
    by (auto simp: list_ex_iff)
  show ?thesis
    unfolding isValidPlacement_def Let_def box rows cols box_ineq by auto
qed

lemma isValidPlacement_units:
  "isValidPlacement grid row col num \<longleftrightarrow> num \<notin> set (valuesAt grid (unitsOf row col))"
  unfolding isValidPlacement_iff valuesAt_def set_map set_unitsOf by force

text \<open>
  C4 (as it holds). For a 9x9 grid of values in \<open>[0, 9]\<close>, \<open>row\<close> and \<open>col\<close> in
  \<open>0..8\<close> and \<open>num\<close> in \<open>1..9\<close>, \<open>isValidPlacement\<close> is true if and only if
  \<open>num\<close> occurs at no cell of the row, the column and the box with origin
  \<open>(row - row mod 3, col - col mod 3)\<close>, the cell \<open>(row, col)\<close> itself included. When
  the cell does not hold \<open>num\<close> (an empty cell, as in every call the source makes),
  this is the same as \<open>num\<close> occurring nowhere else in the three units.
\<close>

theorem isValidPlacement_whole_units:
  assumes "wf_grid grid" and "inRange grid" and "row < 9" and "col < 9"
    and "1 \<le> num" and "num \<le> 9"
  shows "(isValidPlacement grid row col num \<longleftrightarrow>
            num \<notin> set (valuesAt grid (unitsOf row col))) \<and>
         (grid ! row ! col \<noteq> num \<longrightarrow>
            (isValidPlacement grid row col num \<longleftrightarrow>
               num \<notin> set (valuesAt grid (elsewhereOf row col))))"
proof -
  have whole: "isValidPlacement grid row col num \<longleftrightarrow>
      num \<notin> set (valuesAt grid (unitsOf row col))"
    by (rule isValidPlacement_units)
  have "set (valuesAt grid (unitsOf row col)) =
      insert (grid ! row ! col) (set (valuesAt grid (elsewhereOf row col)))"
  proof -
    have "(row, col) \<in> set (unitsOf row col)"
      using assms(3,4) by (simp add: set_unitsOf)
    then have "set (unitsOf row col) = insert (row, col) (set (elsewhereOf row col))"
      by (auto simp: elsewhereOf_def)
    then show ?thesis by (simp add: valuesAt_def)
  qed
  with whole show ?thesis by auto
qed

theorem isValidPlacement_whole_units_witness:
  "wf_grid gridWithFive \<and> inRange gridWithFive \<and> (0::nat) < 9 \<and> (2::nat) < 9 \<and>
   (1::int) \<le> 5 \<and> (5::int) \<le> 9 \<and> gridWithFive ! 0 ! 2 \<noteq> 5 \<and>
   \<not> isValidPlacement gridWithFive 0 2 5 \<and>
   5 \<in> set (valuesAt gridWithFive (elsewhereOf 0 2))"
proof -
  have wf: "wf_grid gridWithFive" by code_simp
  have rg: "inRange gridWithFive" by code_simp
  have nv: "\<not> isValidPlacement gridWithFive 0 2 5" by code_simp
  have ne: "gridWithFive ! 0 ! 2 \<noteq> 5" by code_simp
  from isValidPlacement_whole_units [OF wf rg, of 0 2 5] nv wf rg ne show ?thesis by auto
qed

text \<open>
  C4 as stated fails where the cell itself holds \<open>num\<close>: in the grid whose only
  non-empty cell is \<open>(0, 0)\<close>, holding 5, the digit 5 occurs nowhere else in the
  units of \<open>(0, 0)\<close>, and \<open>isValidPlacement\<close> is false.
\<close>

theorem isValidPlacement_elsewhere_counterexample:
  "wf_grid gridWithFive \<and> inRange gridWithFive \<and>
   \<not> (isValidPlacement gridWithFive 0 0 5 \<longleftrightarrow>
        5 \<notin> set (valuesAt gridWithFive (elsewhereOf 0 0)))"
  by code_simp

subsection \<open>Shuffling permutes\<close>

lemma shuffleLoop_mset:
  "k < length arr \<or> k = 0 \<Longrightarrow> mset (fst (shuffleLoop rnd p arr k)) = mset arr"
proof (induction k arbitrary: p arr)
  case 0
  then show ?case by simp
next
  case (Suc k)
  then have len: "Suc k < length arr" by simp
  have j: "rnd p mod (Suc k + 1) < length arr"
  proof -
    have "rnd p mod (Suc k + 1) < Suc k + 1" by (rule mod_less_divisor) simp
    with len show ?thesis by linarith
  qed
  have "mset (arr[Suc k := arr ! (rnd p mod (Suc k + 1)), rnd p mod (Suc k + 1) := arr ! Suc k])
      = mset arr"
    using mset_swap [OF j len] .
  moreover have "k < length (arr[Suc k := arr ! (rnd p mod (Suc k + 1)),
      rnd p mod (Suc k + 1) := arr ! Suc k]) \<or> k = 0"
    using len by simp
  ultimately show ?case
    using Suc.IH by (simp add: Let_def)
qed

lemma shuffleArray_mset: "mset (fst (shuffleArray rnd p xs)) = mset xs"
  unfolding shuffleArray_def by (rule shuffleLoop_mset) (cases xs, auto)

lemma shuffleArray_set: "shuffleArray rnd p xs = (ys, p') \<Longrightarrow> set ys = set xs"
  using shuffleArray_mset [of rnd p xs] by (metis fst_conv mset_eq_setD)

lemma shuffleArray_length: "shuffleArray rnd p xs = (ys, p') \<Longrightarrow> length ys = length xs"
  using shuffleArray_mset [of rnd p xs] by (metis fst_conv mset_eq_length)

lemma shuffleArray_distinct:
  "shuffleArray rnd p xs = (ys, p') \<Longrightarrow> distinct xs \<Longrightarrow> distinct ys"
  using shuffleArray_mset [of rnd p xs] by (metis fst_conv mset_eq_imp_distinct_iff)

subsection \<open>The first empty cell\<close>

lemma set_allCells: "set allCells = {(r, c). r < 9 \<and> c < 9}"
  by (auto simp: allCells_def rowOf_def)

lemma allCells_eq: "concat (map (\<lambda>row. map (\<lambda>col. (row, col)) [0..<9]) [0..<9]) = allCells"
  by (simp add: allCells_def rowOf_def [abs_def])

lemma filled_iff: "filled grid \<longleftrightarrow> (\<forall>r < 9. \<forall>c < 9. grid ! r ! c \<noteq> 0)"
  unfolding filled_def valuesAt_def set_map set_allCells by force

lemma findEmptyCell_Some:
  assumes "findEmptyCell grid = Some (row, col)"
  shows "row < 9 \<and> col < 9 \<and> grid ! row ! col = 0"
proof -
  from assms obtain i where "i < length allCells" "(row, col) = allCells ! i"
    "grid ! row ! col = 0"
    unfolding findEmptyCell_def allCells_eq find_Some_iff by auto
  then have "(row, col) \<in> set allCells" "grid ! row ! col = 0" by simp_all
  then show ?thesis unfolding set_allCells by simp
qed

lemma findEmptyCell_None: "findEmptyCell grid = None \<longleftrightarrow> filled grid"
  unfolding findEmptyCell_def allCells_eq find_None_iff filled_iff set_allCells by auto

subsection \<open>Placing a digit keeps the grid consistent\<close>

lemma sameUnit_sym: "sameUnit a b \<Longrightarrow> sameUnit b a"
  by (auto simp: sameUnit_def)

lemma isValidPlacement_sameUnit:
  assumes "isValidPlacement grid row col num" and "r < 9" and "c < 9"
    and "sameUnit (row, col) (r, c)"
  shows "grid ! r ! c \<noteq> num"
proof -
  note v = assms(1) [unfolded isValidPlacement_iff]
  from v have rowfree: "\<forall>c < 9. grid ! row ! c \<noteq> num" by (rule conjunct1)
  from v have colfree: "\<forall>r < 9. grid ! r ! col \<noteq> num" by (rule conjunct2 [THEN conjunct1])
  from v have boxfree: "\<forall>r c. r div 3 = row div 3 \<and> c div 3 = col div 3 \<longrightarrow> grid ! r ! c \<noteq> num"
    by (rule conjunct2 [THEN conjunct2])
  from assms(4) have "r = row \<or> c = col \<or> (r div 3 = row div 3 \<and> c div 3 = col div 3)"
    unfolding sameUnit_def fst_conv snd_conv by metis
  then show ?thesis
  proof (elim disjE)
    assume "r = row" with rowfree assms(3) show ?thesis by simp
  next
    assume "c = col" with colfree assms(2) show ?thesis by simp
  next
    assume "r div 3 = row div 3 \<and> c div 3 = col div 3"
    with boxfree show ?thesis by simp
  qed
qed

lemma consistent_setCell:
  assumes wf: "wf_grid grid" and con: "consistent grid"
    and rc: "row < 9" "col < 9"
    and valid: "isValidPlacement grid row col num" and num: "1 \<le> num" "num \<le> 9"
  shows "consistent (setCell grid row col num)"
  unfolding consistent_def
proof (intro allI impI)
  fix r c
  assume r: "r < 9" and c: "c < 9" and nz: "setCell grid row col num ! r ! c \<noteq> 0"
  let ?g = "setCell grid row col num"
  have nth: "?g ! a ! b = (if a = row \<and> b = col then num else grid ! a ! b)" for a b
    by (rule setCell_nth [OF wf rc])
  show "1 \<le> ?g ! r ! c \<and> ?g ! r ! c \<le> 9 \<and>
        (\<forall>r' < 9. \<forall>c' < 9. (r', c') \<noteq> (r, c) \<longrightarrow> sameUnit (r, c) (r', c') \<longrightarrow>
           ?g ! r' ! c' \<noteq> ?g ! r ! c)"
  proof (cases "r = row \<and> c = col")
    case True
    then have here: "?g ! r ! c = num" by (simp add: nth)
    have "?g ! r' ! c' \<noteq> num"
      if "r' < 9" "c' < 9" "(r', c') \<noteq> (r, c)" "sameUnit (r, c) (r', c')" for r' c'
    proof -
      have "grid ! r' ! c' \<noteq> num"
        using isValidPlacement_sameUnit [OF valid that(1,2)] that(4) True by simp
      with that(3) True show ?thesis by (auto simp: nth)
    qed
    with here num show ?thesis by simp
  next
    case False
    then have here: "?g ! r ! c = grid ! r ! c" by (auto simp: nth)
    with nz have gnz: "grid ! r ! c \<noteq> 0" by simp
    from con r c gnz have old: "1 \<le> grid ! r ! c" "grid ! r ! c \<le> 9"
      "\<And>r' c'. r' < 9 \<Longrightarrow> c' < 9 \<Longrightarrow> (r', c') \<noteq> (r, c) \<Longrightarrow> sameUnit (r, c) (r', c') \<Longrightarrow>
         grid ! r' ! c' \<noteq> grid ! r ! c"
      unfolding consistent_def by blast+
    have "?g ! r' ! c' \<noteq> grid ! r ! c"
      if "r' < 9" "c' < 9" "(r', c') \<noteq> (r, c)" "sameUnit (r, c) (r', c')" for r' c'
    proof (cases "r' = row \<and> c' = col")
      case True
      have "grid ! r ! c \<noteq> num"
        using isValidPlacement_sameUnit [OF valid r c] sameUnit_sym [OF that(4)] True by simp
      with True show ?thesis by (auto simp: nth)
    next
      case False
      with old(3) [OF that] show ?thesis by (auto simp: nth)
    qed
    with here old(1,2) show ?thesis by simp
  qed
qed

lemma setCell_restore:
  assumes "wf_grid grid" and "row < 9" and "col < 9" and "grid ! row ! col = 0"
  shows "setCell (setCell grid row col num) row col 0 = grid"
proof -
  have "length grid = 9" "length (grid ! row) = 9"
    using assms by (simp_all add: wf_grid_length wf_grid_row)
  then have "(grid ! row)[col := 0] = grid ! row"
    using assms by (metis list_update_id)
  then show ?thesis
    using \<open>length grid = 9\<close> assms(2) by (simp add: setCell_def)
qed

lemma consistent_emptyGrid: "consistent emptyGrid"
  by (simp add: consistent_def emptyGrid_def)

lemma wf_emptyGrid: "wf_grid emptyGrid"
  by (simp add: wf_grid_def emptyGrid_def list_all_length)

subsection \<open>What a call of \<open>fillGrid\<close> leaves behind\<close>

lemma fillGrid_for_post:
  assumes call: "\<And>p g res. wf_grid g \<Longrightarrow> consistent g \<Longrightarrow>
      fillGrid depth rnd p g = Some res \<Longrightarrow> fillPost g res"
    and wf: "wf_grid grid" and con: "consistent grid"
    and rc: "row < 9" "col < 9" and empty: "grid ! row ! col = 0"
  shows "\<forall>n \<in> set nums. 1 \<le> n \<and> n \<le> 9 \<Longrightarrow>
     fillGrid_for depth rnd p grid row col nums = Some res \<Longrightarrow> fillPost grid res"
proof (induction nums arbitrary: p)
  case Nil
  then show ?case using wf by (auto simp: fillPost_def)
next
  case (Cons num rest)
  from Cons.prems(1) have num: "1 \<le> num" "num \<le> 9"
    and rest: "\<forall>n \<in> set rest. 1 \<le> n \<and> n \<le> 9" by simp_all
  show ?case
  proof (cases "isValidPlacement grid row col num")
    case False
    with Cons.prems(2) have "fillGrid_for depth rnd p grid row col rest = Some res" by simp
    with Cons.IH [OF rest] show ?thesis .
  next
    case True
    let ?g = "setCell grid row col num"
    have wf': "wf_grid ?g" using wf by (rule wf_setCell)
    have con': "consistent ?g" using wf con rc True num by (rule consistent_setCell)
    from True Cons.prems(2) obtain ok g1 p1 where
      inner: "fillGrid depth rnd p ?g = Some (ok, g1, p1)"
      by (auto split: option.splits)
    have post1: "fillPost ?g (ok, g1, p1)" using call [OF wf' con' inner] .
    show ?thesis
    proof (cases ok)
      case True
      with inner \<open>isValidPlacement grid row col num\<close> Cons.prems(2)
      have "res = (True, g1, p1)" by simp
      with post1 True show ?thesis by (simp add: fillPost_def)
    next
      case False
      with post1 have "g1 = ?g" by (simp add: fillPost_def)
      then have "setCell g1 row col 0 = grid"
        using setCell_restore [OF wf rc empty] by simp
      with inner False \<open>isValidPlacement grid row col num\<close> Cons.prems(2)
      have "fillGrid_for depth rnd p1 grid row col rest = Some res" by simp
      with Cons.IH [OF rest] show ?thesis .
    qed
  qed
qed

lemma fillGrid_post:
  "wf_grid grid \<Longrightarrow> consistent grid \<Longrightarrow> fillGrid depth rnd p grid = Some res \<Longrightarrow>
   fillPost grid res"
proof (induction depth arbitrary: p grid res)
  case 0
  then show ?case by simp
next
  case (Suc depth)
  show ?case
  proof (cases "findEmptyCell grid")
    case None
    then have "filled grid" by (simp add: findEmptyCell_None)
    moreover from None Suc.prems(3) have "res = (True, grid, p)" by simp
    ultimately show ?thesis using Suc.prems(1,2) by (simp add: fillPost_def)
  next
    case (Some cell)
    obtain row col where cell: "cell = (row, col)" by (cases cell)
    obtain numbers p' where sh: "shuffleArray rnd p [1::int, 2, 3, 4, 5, 6, 7, 8, 9] = (numbers, p')"
      by (cases "shuffleArray rnd p [1::int, 2, 3, 4, 5, 6, 7, 8, 9]")
    from findEmptyCell_Some [of grid row col] Some cell
    have rc: "row < 9" "col < 9" and empty: "grid ! row ! col = 0" by simp_all
    have "set numbers = set [1::int, 2, 3, 4, 5, 6, 7, 8, 9]"
      using sh by (rule shuffleArray_set)
    then have nums: "\<forall>n \<in> set numbers. 1 \<le> n \<and> n \<le> 9" by auto
    from Some cell sh Suc.prems(3)
    have "fillGrid_for depth rnd p' grid row col numbers = Some res" by simp
    moreover have "\<And>p g res. wf_grid g \<Longrightarrow> consistent g \<Longrightarrow>
        fillGrid depth rnd p g = Some res \<Longrightarrow> fillPost g res"
      by (rule Suc.IH)
    ultimately show ?thesis
      using Suc.prems(1,2) rc empty nums by (rule fillGrid_for_post [rotated -1])
  qed
qed

subsection \<open>A consistent grid without empty cells is solved\<close>

lemma eachDigitOnce_unit:
  assumes con: "consistent grid" and full: "filled grid"
    and dist: "distinct cells" and len: "length cells = 9"
    and range: "\<forall>a \<in> set cells. fst a < 9 \<and> snd a < 9"
    and unit: "\<forall>a \<in> set cells. \<forall>b \<in> set cells. sameUnit a b"
  shows "eachDigitOnce (valuesAt grid cells)"
proof -
  let ?v = "\<lambda>(r, c). grid ! r ! c"
  have cellfacts: "1 \<le> ?v a \<and> ?v a \<le> 9 \<and> (\<forall>b \<in> set cells. b \<noteq> a \<longrightarrow> ?v b \<noteq> ?v a)"
    if a: "a \<in> set cells" for a
  proof -
    obtain r c where [simp]: "a = (r, c)" by (cases a)
    from a range have rc: "r < 9" "c < 9" by auto
    with full have nz: "grid ! r ! c \<noteq> 0" by (simp add: filled_iff)
    note here = con [unfolded consistent_def, rule_format, OF rc nz]
    have "?v b \<noteq> grid ! r ! c" if b: "b \<in> set cells" "b \<noteq> a" for b
    proof -
      obtain r' c' where [simp]: "b = (r', c')" by (cases b)
      from b range have "r' < 9" "c' < 9" by auto
      moreover from unit a b have "sameUnit (r, c) (r', c')" by auto
      ultimately show ?thesis
        using here [THEN conjunct2, THEN conjunct2, rule_format, of r' c'] b(2) by simp
    qed
    with here show ?thesis by simp
  qed
  have "inj_on ?v (set cells)"
    by (rule inj_onI) (metis cellfacts)
  with dist have dvals: "distinct (valuesAt grid cells)"
    by (simp add: valuesAt_def distinct_map)
  have sub: "set (valuesAt grid cells) \<subseteq> {1..9}"
    using cellfacts by (auto simp: valuesAt_def)
  have "card (set (valuesAt grid cells)) = length (valuesAt grid cells)"
    using dvals by (rule distinct_card)
  also have "\<dots> = 9" using len by (simp add: valuesAt_def)
  finally have "card (set (valuesAt grid cells)) = 9" .
  then have "set (valuesAt grid cells) = {1..9}"
    using sub by (intro card_subset_eq) simp_all
  then show ?thesis
    unfolding eachDigitOnce_def
    using dvals by (metis count_mset distinct_count_atmost_1)
qed

lemma upt3: "[a..<a + 3] = [a, a + 1, a + 2]"
  by (simp add: upt_rec)

lemma upt9: "[0..<9] = [0, 1, 2, 3, 4, 5, 6, 7, 8]"
  by (simp add: upt_rec)

lemma consistent_filled_solved:
  assumes con: "consistent grid" and full: "filled grid"
  shows "solved grid"
proof -
  have "eachDigitOnce (valuesAt grid (rowOf row))" if "row < 9" for row
    using that by (intro eachDigitOnce_unit [OF con full])
      (auto simp: rowOf_def distinct_map inj_on_def sameUnit_def)
  moreover have "eachDigitOnce (valuesAt grid (columnOf col))" if "col < 9" for col
    using that by (intro eachDigitOnce_unit [OF con full])
      (auto simp: columnOf_def distinct_map inj_on_def sameUnit_def)
  moreover have "eachDigitOnce (valuesAt grid (boxAt (3 * br) (3 * bc)))"
    if "br < 3" "bc < 3" for br bc
  proof (intro eachDigitOnce_unit [OF con full])
    show "distinct (boxAt (3 * br) (3 * bc))" by (simp add: boxAt_def upt3)
    show "length (boxAt (3 * br) (3 * bc)) = 9" by (simp add: boxAt_def upt3)
    show "\<forall>a \<in> set (boxAt (3 * br) (3 * bc)). fst a < 9 \<and> snd a < 9"
      using that unfolding set_boxAt by auto
    have third: "a div 3 = k" if "3 * k \<le> a" "a < 3 * k + 3" for a k :: nat
      using that by auto
    show "\<forall>a \<in> set (boxAt (3 * br) (3 * bc)). \<forall>b \<in> set (boxAt (3 * br) (3 * bc)). sameUnit a b"
      unfolding set_boxAt sameUnit_def by (auto simp: third)
  qed
  ultimately show ?thesis by (simp add: solved_def)
qed

subsection \<open>Counting empty cells\<close>

lemma distinct_allCells: "distinct allCells"
  by code_simp

lemma countZeros_card: "countZeros grid = card {(r, c). r < 9 \<and> c < 9 \<and> grid ! r ! c = 0}"
proof -
  have "countZeros grid = length (filter (\<lambda>(r, c). grid ! r ! c = 0) allCells)"
    by (simp add: countZeros_def valuesAt_def filter_map comp_def case_prod_unfold)
  also have "\<dots> = card ({a. case a of (r, c) \<Rightarrow> grid ! r ! c = 0} \<inter> set allCells)"
    using distinct_allCells by (rule distinct_length_filter)
  also have "{a. case a of (r, c) \<Rightarrow> grid ! r ! c = 0} \<inter> set allCells =
      {(r, c). r < 9 \<and> c < 9 \<and> grid ! r ! c = 0}"
    by (auto simp: set_allCells)
  finally show ?thesis .
qed

lemma finite_cells: "finite {(r, c). r < (9::nat) \<and> c < (9::nat) \<and> P r c}"
  by (rule finite_subset [of _ "{..<9} \<times> {..<9}"]) auto

lemma countZeros_setCell:
  assumes wf: "wf_grid grid" and rc: "row < 9" "col < 9"
    and empty: "grid ! row ! col = 0" and num: "num \<noteq> 0"
  shows "countZeros (setCell grid row col num) < countZeros grid"
proof -
  have "{(r, c). r < 9 \<and> c < 9 \<and> setCell grid row col num ! r ! c = 0} \<subset>
        {(r, c). r < 9 \<and> c < 9 \<and> grid ! r ! c = 0}"
    using rc empty num by (auto simp: setCell_nth [OF wf rc])
  then show ?thesis
    unfolding countZeros_card by (intro psubset_card_mono finite_cells)
qed

subsection \<open>Enough depth: the search returns\<close>

lemma fillGrid_for_returns:
  assumes call: "\<And>p g. wf_grid g \<Longrightarrow> consistent g \<Longrightarrow> countZeros g < depth \<Longrightarrow>
      \<exists>res. fillGrid depth rnd p g = Some res"
    and wf: "wf_grid grid" and con: "consistent grid"
    and rc: "row < 9" "col < 9" and empty: "grid ! row ! col = 0"
    and zeros: "countZeros grid \<le> depth"
  shows "\<forall>n \<in> set nums. 1 \<le> n \<and> n \<le> 9 \<Longrightarrow>
     \<exists>res. fillGrid_for depth rnd p grid row col nums = Some res"
proof (induction nums arbitrary: p)
  case Nil
  show ?case by auto
next
  case (Cons num rest)
  from Cons.prems have num: "1 \<le> num" "num \<le> 9"
    and rest: "\<forall>n \<in> set rest. 1 \<le> n \<and> n \<le> 9" by simp_all
  show ?case
  proof (cases "isValidPlacement grid row col num")
    case False
    with Cons.IH [OF rest] show ?thesis by simp
  next
    case True
    let ?g = "setCell grid row col num"
    have wf': "wf_grid ?g" using wf by (rule wf_setCell)
    have con': "consistent ?g" using wf con rc True num by (rule consistent_setCell)
    have "countZeros ?g < countZeros grid"
      using wf rc empty num(1) by (intro countZeros_setCell) auto
    with zeros have "countZeros ?g < depth" by simp
    from call [OF wf' con' this] obtain ok g1 p1 where
      inner: "fillGrid depth rnd p ?g = Some (ok, g1, p1)"
      by (metis prod_cases3)
    show ?thesis
    proof (cases ok)
      case True
      with inner \<open>isValidPlacement grid row col num\<close> show ?thesis by auto
    next
      case False
      from fillGrid_post [OF wf' con' inner] False have "g1 = ?g" by (simp add: fillPost_def)
      then have "setCell g1 row col 0 = grid"
        using setCell_restore [OF wf rc empty] by simp
      with inner False \<open>isValidPlacement grid row col num\<close> Cons.IH [OF rest, of p1]
      show ?thesis by simp
    qed
  qed
qed

lemma fillGrid_returns:
  "wf_grid grid \<Longrightarrow> consistent grid \<Longrightarrow> countZeros grid < depth \<Longrightarrow>
   \<exists>res. fillGrid depth rnd p grid = Some res"
proof (induction depth arbitrary: p grid)
  case 0
  then show ?case by simp
next
  case (Suc depth)
  show ?case
  proof (cases "findEmptyCell grid")
    case None
    then show ?thesis by auto
  next
    case (Some cell)
    obtain row col where cell: "cell = (row, col)" by (cases cell)
    obtain numbers p' where sh: "shuffleArray rnd p [1::int, 2, 3, 4, 5, 6, 7, 8, 9] = (numbers, p')"
      by (cases "shuffleArray rnd p [1::int, 2, 3, 4, 5, 6, 7, 8, 9]")
    from findEmptyCell_Some [of grid row col] Some cell
    have rc: "row < 9" "col < 9" and empty: "grid ! row ! col = 0" by simp_all
    have "set numbers = set [1::int, 2, 3, 4, 5, 6, 7, 8, 9]"
      using sh by (rule shuffleArray_set)
    then have nums: "\<forall>n \<in> set numbers. 1 \<le> n \<and> n \<le> 9" by auto
    have zeros: "countZeros grid \<le> depth" using Suc.prems(3) by simp
    have "\<And>p g. wf_grid g \<Longrightarrow> consistent g \<Longrightarrow> countZeros g < depth \<Longrightarrow>
        \<exists>res. fillGrid depth rnd p g = Some res"
      by (rule Suc.IH)
    then have "\<exists>res. fillGrid_for depth rnd p' grid row col numbers = Some res"
      using Suc.prems(1,2) rc empty zeros nums by (rule fillGrid_for_returns)
    with Some cell sh show ?thesis by simp
  qed
qed

subsection \<open>A grid that can be completed is completed\<close>

lemma div3_less9: "r div 3 = i div 3 \<Longrightarrow> i < 9 \<Longrightarrow> r < (9::nat)"
  by arith

lemma isValidPlacement_solution:
  assumes sol: "consistent sol" "filled sol" and agree: "agreesWith grid sol"
    and rc: "row < 9" "col < 9" and empty: "grid ! row ! col = 0"
  shows "isValidPlacement grid row col (sol ! row ! col)"
proof -
  let ?d = "sol ! row ! col"
  have d: "?d \<noteq> 0" using sol(2) rc by (simp add: filled_iff)
  have free: "grid ! r ! c \<noteq> ?d" if "r < 9" "c < 9" "sameUnit (row, col) (r, c)" for r c
  proof
    assume eq: "grid ! r ! c = ?d"
    with d agree that(1,2) have same: "sol ! r ! c = ?d" by (simp add: agreesWith_def)
    from eq d empty have "(r, c) \<noteq> (row, col)" by auto
    with sol(1) [unfolded consistent_def, rule_format, OF rc d] that same
    show False by blast
  qed
  have "grid ! row ! c \<noteq> ?d" if "c < 9" for c
    using free [OF rc(1) that] by (simp add: sameUnit_def)
  moreover have "grid ! r ! col \<noteq> ?d" if "r < 9" for r
    using free [OF that rc(2)] by (simp add: sameUnit_def)
  moreover have "grid ! r ! c \<noteq> ?d" if "r div 3 = row div 3 \<and> c div 3 = col div 3" for r c
  proof -
    from that rc have "r < 9" "c < 9" by (auto dest: div3_less9)
    then show ?thesis using free that by (simp add: sameUnit_def)
  qed
  ultimately show ?thesis
    unfolding isValidPlacement_iff by blast
qed

lemma agreesWith_setCell:
  assumes "agreesWith grid sol" and "wf_grid grid" and "row < 9" and "col < 9"
  shows "agreesWith (setCell grid row col (sol ! row ! col)) sol"
  using assms(1) unfolding agreesWith_def by (simp add: setCell_nth [OF assms(2,3,4)])

lemma fillGrid_for_complete:
  assumes call: "\<forall>p g. wf_grid g \<longrightarrow> consistent g \<longrightarrow> agreesWith g sol \<longrightarrow>
      countZeros g < depth \<longrightarrow> (\<exists>g' p'. fillGrid depth rnd p g = Some (True, g', p'))"
    and sol: "consistent sol" "filled sol"
    and wf: "wf_grid grid" and con: "consistent grid" and agree: "agreesWith grid sol"
    and rc: "row < 9" "col < 9" and empty: "grid ! row ! col = 0"
    and zeros: "countZeros grid \<le> depth"
  shows "\<forall>n \<in> set nums. 1 \<le> n \<and> n \<le> 9 \<Longrightarrow> sol ! row ! col \<in> set nums \<Longrightarrow>
     \<exists>g' p'. fillGrid_for depth rnd p grid row col nums = Some (True, g', p')"
proof (induction nums arbitrary: p)
  case Nil
  then show ?case by simp
next
  case (Cons num rest)
  from Cons.prems(1) have num: "1 \<le> num" "num \<le> 9"
    and rest: "\<forall>n \<in> set rest. 1 \<le> n \<and> n \<le> 9" by simp_all
  have dvalid: "isValidPlacement grid row col (sol ! row ! col)"
    using sol agree rc empty by (rule isValidPlacement_solution)
  show ?case
  proof (cases "isValidPlacement grid row col num")
    case False
    with dvalid have "num \<noteq> sol ! row ! col" by auto
    with Cons.prems(2) have "sol ! row ! col \<in> set rest" by simp
    with Cons.IH [OF rest, of p] False show ?thesis by simp
  next
    case True
    let ?g = "setCell grid row col num"
    have wf': "wf_grid ?g" using wf by (rule wf_setCell)
    have con': "consistent ?g" using wf con rc True num by (rule consistent_setCell)
    have "countZeros ?g < countZeros grid"
      using wf rc empty num(1) by (intro countZeros_setCell) auto
    with zeros have less: "countZeros ?g < depth" by simp
    from fillGrid_returns [OF wf' con' less] obtain ok g1 p1 where
      inner: "fillGrid depth rnd p ?g = Some (ok, g1, p1)"
      by (metis prod_cases3)
    show ?thesis
    proof (cases ok)
      case True
      with inner \<open>isValidPlacement grid row col num\<close> show ?thesis by auto
    next
      case False
      have "num \<noteq> sol ! row ! col"
      proof
        assume "num = sol ! row ! col"
        then have "agreesWith ?g sol" using agree wf rc by (simp add: agreesWith_setCell)
        from call [rule_format, OF wf' con' this less, of p] inner False show False by simp
      qed
      with Cons.prems(2) have later: "sol ! row ! col \<in> set rest" by simp
      from fillGrid_post [OF wf' con' inner] False have "g1 = ?g" by (simp add: fillPost_def)
      then have "setCell g1 row col 0 = grid"
        using setCell_restore [OF wf rc empty] by simp
      with inner False \<open>isValidPlacement grid row col num\<close> Cons.IH [OF rest later, of p1]
      show ?thesis by simp
    qed
  qed
qed

lemma fillGrid_complete:
  assumes sol: "consistent sol" "filled sol"
  shows "wf_grid grid \<Longrightarrow> consistent grid \<Longrightarrow> agreesWith grid sol \<Longrightarrow>
     countZeros grid < depth \<Longrightarrow> \<exists>g' p'. fillGrid depth rnd p grid = Some (True, g', p')"
proof (induction depth arbitrary: p grid)
  case 0
  then show ?case by simp
next
  case (Suc depth)
  show ?case
  proof (cases "findEmptyCell grid")
    case None
    then show ?thesis by auto
  next
    case (Some cell)
    obtain row col where cell: "cell = (row, col)" by (cases cell)
    obtain numbers p' where sh: "shuffleArray rnd p [1::int, 2, 3, 4, 5, 6, 7, 8, 9] = (numbers, p')"
      by (cases "shuffleArray rnd p [1::int, 2, 3, 4, 5, 6, 7, 8, 9]")
    from findEmptyCell_Some [of grid row col] Some cell
    have rc: "row < 9" "col < 9" and empty: "grid ! row ! col = 0" by simp_all
    have numbers: "set numbers = set [1::int, 2, 3, 4, 5, 6, 7, 8, 9]"
      using sh by (rule shuffleArray_set)
    then have nums: "\<forall>n \<in> set numbers. 1 \<le> n \<and> n \<le> 9" by auto
    have "sol ! row ! col \<noteq> 0" using sol(2) rc by (simp add: filled_iff)
    with sol(1) [unfolded consistent_def, rule_format, OF rc]
    have "1 \<le> sol ! row ! col" "sol ! row ! col \<le> 9" by simp_all
    then have "sol ! row ! col \<in> {1..9}" by simp
    also have "{1..9} = set [1::int, 2, 3, 4, 5, 6, 7, 8, 9]" by auto
    finally have member: "sol ! row ! col \<in> set numbers" using numbers by simp
    have zeros: "countZeros grid \<le> depth" using Suc.prems(4) by simp
    have "\<forall>p g. wf_grid g \<longrightarrow> consistent g \<longrightarrow> agreesWith g sol \<longrightarrow>
        countZeros g < depth \<longrightarrow> (\<exists>g' p'. fillGrid depth rnd p g = Some (True, g', p'))"
      by (intro allI impI) (rule Suc.IH)
    from fillGrid_for_complete [where sol = sol and depth = depth and rnd = rnd, OF this sol
        Suc.prems(1,2,3) rc empty zeros nums member]
    have "\<exists>g' q. fillGrid_for depth rnd p' grid row col numbers = Some (True, g', q)" .
    with Some cell sh show ?thesis by simp
  qed
qed

subsection \<open>The empty grid\<close>

lemma consistent_iff: "consistent grid \<longleftrightarrow> list_all (cellConsistent grid) allCells"
proof -
  have unit: "(r', c') \<in> set (elsewhereOf r c) \<longleftrightarrow>
      (r', c') \<noteq> (r, c) \<and> sameUnit (r, c) (r', c')" if "r' < 9" "c' < 9" for r c r' c'
    using that unfolding elsewhereOf_def set_filter set_unitsOf sameUnit_def by auto
  have range: "r' < 9 \<and> c' < 9" if "(r', c') \<in> set (elsewhereOf r c)" "r < 9" "c < 9"
    for r c r' c'
    using that unfolding elsewhereOf_def set_filter set_unitsOf by (auto dest: div3_less9)
  have "cellConsistent grid (r, c) \<longleftrightarrow>
      (grid ! r ! c \<noteq> 0 \<longrightarrow> 1 \<le> grid ! r ! c \<and> grid ! r ! c \<le> 9 \<and>
        (\<forall>r' < 9. \<forall>c' < 9. (r', c') \<noteq> (r, c) \<longrightarrow> sameUnit (r, c) (r', c') \<longrightarrow>
           grid ! r' ! c' \<noteq> grid ! r ! c))" if rc: "r < 9" "c < 9" for r c
  proof -
    have "grid ! r ! c \<notin> set (valuesAt grid (elsewhereOf r c)) \<longleftrightarrow>
        (\<forall>r' < 9. \<forall>c' < 9. (r', c') \<noteq> (r, c) \<longrightarrow> sameUnit (r, c) (r', c') \<longrightarrow>
           grid ! r' ! c' \<noteq> grid ! r ! c)"
      (is "?L \<longleftrightarrow> ?R")
    proof
      assume ?L
      then have "\<forall>a \<in> set (elsewhereOf r c). grid ! fst a ! snd a \<noteq> grid ! r ! c"
        unfolding valuesAt_def set_map image_iff case_prod_unfold by metis
      then show ?R using unit by fastforce
    next
      assume R: ?R
      have "grid ! r' ! c' \<noteq> grid ! r ! c" if "(r', c') \<in> set (elsewhereOf r c)" for r' c'
        using range [OF that rc] unit that R by blast
      then have "\<forall>a \<in> set (elsewhereOf r c). grid ! fst a ! snd a \<noteq> grid ! r ! c"
        by auto
      then show ?L
        unfolding valuesAt_def set_map image_iff case_prod_unfold by metis
    qed
    then show ?thesis by (auto simp: cellConsistent_def Let_def)
  qed
  then show ?thesis
    unfolding consistent_def list_all_iff set_allCells by auto
qed

lemma consistent_exampleSolution: "consistent exampleSolution"
  unfolding consistent_iff by code_simp

lemma filled_exampleSolution: "filled exampleSolution"
  by code_simp

lemma countZeros_emptyGrid: "countZeros emptyGrid = 81"
  by code_simp

lemma agreesWith_emptyGrid: "agreesWith emptyGrid sol"
  by (simp add: agreesWith_def emptyGrid_def)

subsection \<open>More depth does not change a result\<close>

lemma fillGrid_for_mono:
  assumes call: "\<forall>p g res. fillGrid d rnd p g = Some res \<longrightarrow> fillGrid d' rnd p g = Some res"
  shows "fillGrid_for d rnd p grid row col nums = Some res \<Longrightarrow>
     fillGrid_for d' rnd p grid row col nums = Some res"
proof (induction nums arbitrary: p grid)
  case Nil
  then show ?case by simp
next
  case (Cons num rest)
  show ?case
  proof (cases "isValidPlacement grid row col num")
    case False
    with Cons.prems Cons.IH show ?thesis by simp
  next
    case True
    with Cons.prems obtain ok g1 p1 where
      inner: "fillGrid d rnd p (setCell grid row col num) = Some (ok, g1, p1)"
      by (auto split: option.splits)
    then have inner': "fillGrid d' rnd p (setCell grid row col num) = Some (ok, g1, p1)"
      using call by blast
    show ?thesis
    proof (cases ok)
      case True
      with inner \<open>isValidPlacement grid row col num\<close> Cons.prems
      have "res = (True, g1, p1)" by simp
      with inner' True \<open>isValidPlacement grid row col num\<close> show ?thesis by simp
    next
      case False
      with inner \<open>isValidPlacement grid row col num\<close> Cons.prems
      have "fillGrid_for d rnd p1 (setCell g1 row col 0) row col rest = Some res" by simp
      then have "fillGrid_for d' rnd p1 (setCell g1 row col 0) row col rest = Some res"
        by (rule Cons.IH)
      with inner' False \<open>isValidPlacement grid row col num\<close> show ?thesis by simp
    qed
  qed
qed

lemma fillGrid_mono:
  "fillGrid d rnd p grid = Some res \<Longrightarrow> d \<le> d' \<Longrightarrow> fillGrid d' rnd p grid = Some res"
proof (induction d arbitrary: d' p grid res)
  case 0
  then show ?case by simp
next
  case (Suc d)
  from Suc.prems(2) obtain e where d': "d' = Suc e" and le: "d \<le> e"
    by (cases d') auto
  have call: "\<forall>p g res. fillGrid d rnd p g = Some res \<longrightarrow> fillGrid e rnd p g = Some res"
    using Suc.IH le by blast
  show ?case
  proof (cases "findEmptyCell grid")
    case None
    with Suc.prems(1) show ?thesis by (simp add: d')
  next
    case (Some cell)
    obtain row col where cell: "cell = (row, col)" by (cases cell)
    obtain numbers q where sh: "shuffleArray rnd p [1::int, 2, 3, 4, 5, 6, 7, 8, 9] = (numbers, q)"
      by (cases "shuffleArray rnd p [1::int, 2, 3, 4, 5, 6, 7, 8, 9]")
    from Some cell sh Suc.prems(1)
    have "fillGrid_for d rnd q grid row col numbers = Some res" by simp
    then have "fillGrid_for e rnd q grid row col numbers = Some res"
      by (rule fillGrid_for_mono [OF call])
    with Some cell sh show ?thesis by (simp add: d')
  qed
qed

lemma fillGrid_emptyGrid_true:
  assumes "fillGrid depth rnd p emptyGrid = Some (ok, grid, p')"
  shows "ok"
proof -
  have "fillGrid (max depth 82) rnd p emptyGrid = Some (ok, grid, p')"
    using assms by (rule fillGrid_mono) simp
  moreover have "\<exists>g' q. fillGrid (max depth 82) rnd p emptyGrid = Some (True, g', q)"
    using consistent_exampleSolution filled_exampleSolution wf_emptyGrid consistent_emptyGrid
      agreesWith_emptyGrid
    by (rule fillGrid_complete) (simp add: countZeros_emptyGrid)
  ultimately show ?thesis by auto
qed

text \<open>
  C1. Whenever \<open>fillGrid\<close> returns true on the all-zero 9x9 grid, every row, every
  column and every 3x3 box of the grid it leaves holds each of the digits 1..9 exactly
  once. Moreover \<open>fillGrid\<close> cannot return false on the all-zero grid, so every grid
  that \<open>generateSolution\<close> returns is such a grid, and with a recursion depth of 82
  or more \<open>generateSolution\<close> does return, whatever the random draws.
\<close>

theorem generateSolution_solved:
  "(fillGrid depth rnd p emptyGrid = Some (True, grid, p') \<longrightarrow> wf_grid grid \<and> solved grid) \<and>
   (generateSolution depth rnd p = Some (grid, p') \<longrightarrow> wf_grid grid \<and> solved grid) \<and>
   (81 < depth \<longrightarrow> (\<exists>g q. generateSolution depth rnd p = Some (g, q)))"
proof -
  have post: "wf_grid g \<and> solved g" if "fillGrid depth rnd p emptyGrid = Some (True, g, q)" for g q
  proof -
    from fillGrid_post [OF wf_emptyGrid consistent_emptyGrid that]
    have "wf_grid g" "consistent g" "filled g" by (simp_all add: fillPost_def)
    then show ?thesis by (simp add: consistent_filled_solved)
  qed
  have returned: "wf_grid grid \<and> solved grid" if "generateSolution depth rnd p = Some (grid, p')"
  proof -
    from that obtain ok where run: "fillGrid depth rnd p emptyGrid = Some (ok, grid, p')"
      by (auto simp: generateSolution_def split: option.splits)
    from fillGrid_emptyGrid_true [OF run] run
    have "fillGrid depth rnd p emptyGrid = Some (True, grid, p')" by simp
    then show ?thesis by (rule post)
  qed
  have returns: "\<exists>g q. generateSolution depth rnd p = Some (g, q)" if "81 < depth"
  proof -
    from that have "countZeros emptyGrid < depth" by (simp add: countZeros_emptyGrid)
    with fillGrid_returns [OF wf_emptyGrid consistent_emptyGrid]
    obtain res where "fillGrid depth rnd p emptyGrid = Some res" by blast
    then show ?thesis
      by (cases res) (simp add: generateSolution_def)
  qed
  from post returned returns show ?thesis by blast
qed

theorem generateSolution_solved_witness:
  "fillGrid 82 exampleDraws 0 emptyGrid = Some (True, exampleSolution, 648) \<and>
   generateSolution 82 exampleDraws 0 = Some (exampleSolution, 648) \<and>
   (81::nat) < 82 \<and> wf_grid exampleSolution \<and> solved exampleSolution"
proof -
  have run: "fillGrid 82 exampleDraws 0 emptyGrid = Some (True, exampleSolution, 648)"
    by code_simp
  then have gen: "generateSolution 82 exampleDraws 0 = Some (exampleSolution, 648)"
    by (simp add: generateSolution_def)
  from generateSolution_solved [of 82 exampleDraws 0 exampleSolution 648] run gen
  show ?thesis by simp
qed

end
